theory Spec2Isabelle
  imports Main "HOL-Library.Char_ord" "HOL-Library.List_Lexorder"
begin

section \<open>Strings and paths\<close>

text \<open>
  Python's \<^verbatim>\<open>s.endswith(suffix)\<close>, \<^verbatim>\<open>sub in s\<close> and \<^verbatim>\<open>s.lower()\<close>.
  \<open>lower\<close> maps the ASCII capitals only; the strings of the model are byte strings.
\<close>

definition endswith :: "string \<Rightarrow> string \<Rightarrow> bool" where
  "endswith s suffix =
     (length suffix \<le> length s \<and> drop (length s - length suffix) s = suffix)"

fun startswith :: "string \<Rightarrow> string \<Rightarrow> bool" where
  "startswith s [] = True"
| "startswith [] (c # cs) = False"
| "startswith (d # ds) (c # cs) = (d = c \<and> startswith ds cs)"

fun contains :: "string \<Rightarrow> string \<Rightarrow> bool" where
  "contains [] sub = (sub = [])"
| "contains (c # cs) sub = (startswith (c # cs) sub \<or> contains cs sub)"

definition lower_char :: "char \<Rightarrow> char" where
  "lower_char c =
     (case map_of (zip ''ABCDEFGHIJKLMNOPQRSTUVWXYZ'' ''abcdefghijklmnopqrstuvwxyz'') c of
        Some d \<Rightarrow> d
      | None \<Rightarrow> c)"

definition lower :: "string \<Rightarrow> string" where
  "lower s = map lower_char s"

text \<open>
  A \<^verbatim>\<open>pathlib.Path\<close> is the list of its components below the root. \<open>parts\<close> splits
  a string at the slashes and drops the empty and the \<^verbatim>\<open>.\<close> components, as pathlib
  does; \<open>path_join d rel\<close> is \<^verbatim>\<open>d / rel\<close>, where an absolute right operand replaces
  the left one. Components are opaque names: symbolic links and \<^verbatim>\<open>..\<close> are not
  resolved.
\<close>

type_synonym path = "string list"

fun split_slash :: "string \<Rightarrow> string \<Rightarrow> string list" where
  "split_slash cur [] = [cur]"
| "split_slash cur (c # cs) =
     (if c = CHR ''/'' then cur # split_slash [] cs else split_slash (cur @ [c]) cs)"

definition parts :: "string \<Rightarrow> path" where
  "parts s = filter (\<lambda>c. c \<noteq> [] \<and> c \<noteq> ''.'') (split_slash [] s)"

definition path_join :: "path \<Rightarrow> string \<Rightarrow> path" where
  "path_join d rel = (if startswith rel ''/'' then parts rel else d @ parts rel)"

section \<open>Errors, the local file system and the observable trace\<close>

text \<open>
  Every exception that the downloader raises or lets through is a value of \<open>error\<close>;
  \<open>RequestFailedError\<close> carries the text that \<^verbatim>\<open>str(error)\<close> yields.
\<close>

datatype error =
    RequestFailedError string
  | IndexError
  | AttributeError
  | FileNotFoundError
  | FileExistsError
  | NotADirectoryError
  | IsADirectoryError
  | Abort
  | OtherError string

type_synonym bytes = string

datatype node = File bytes | Dir

type_synonym filesystem = "path \<rightharpoonup> node"

text \<open>The root directory always exists; every other path is looked up.\<close>

definition lookup :: "filesystem \<Rightarrow> path \<Rightarrow> node option" where
  "lookup fsys p = (if p = [] then Some Dir else fsys p)"

definition exists :: "filesystem \<Rightarrow> path \<Rightarrow> bool" where
  "exists fsys p = (lookup fsys p \<noteq> None)"

definition is_file :: "filesystem \<Rightarrow> path \<Rightarrow> bool" where
  "is_file fsys p = (case lookup fsys p of Some (File b) \<Rightarrow> True | _ \<Rightarrow> False)"

text \<open>
  \<^verbatim>\<open>p.mkdir(parents=True, exist_ok=True)\<close>: \<open>mkdir_below done rest\<close> walks from the
  directory \<open>done\<close> down the components \<open>rest\<close>, creating what is missing; a component
  that is a regular file makes the call fail (\<^verbatim>\<open>FileExistsError\<close> for the last
  component, \<^verbatim>\<open>NotADirectoryError\<close> for one on the way).
\<close>

fun mkdir_below :: "filesystem \<Rightarrow> path \<Rightarrow> path \<Rightarrow> error + filesystem" where
  "mkdir_below fsys done [] = Inr fsys"
| "mkdir_below fsys done (c # cs) =
     (case lookup fsys (done @ [c]) of
        None \<Rightarrow> mkdir_below (fsys(done @ [c] \<mapsto> Dir)) (done @ [c]) cs
      | Some Dir \<Rightarrow> mkdir_below fsys (done @ [c]) cs
      | Some (File b) \<Rightarrow> Inl (if cs = [] then FileExistsError else NotADirectoryError))"

definition mkdir_parents :: "filesystem \<Rightarrow> path \<Rightarrow> error + filesystem" where
  "mkdir_parents fsys p = mkdir_below fsys [] p"

text \<open>\<^verbatim>\<open>with p.open("wb+") as f: f.write(content)\<close>: the file is replaced as a whole.\<close>

definition write_file :: "filesystem \<Rightarrow> path \<Rightarrow> bytes \<Rightarrow> error + filesystem" where
  "write_file fsys p content =
     (case lookup fsys p of
        Some Dir \<Rightarrow> Inl IsADirectoryError
      | _ \<Rightarrow> Inr (fsys(p \<mapsto> File content)))"

text \<open>
  The messages handed to the logger, and the calls to the collaborators, in the order
  in which they happen. \<open>Downloading i n file price\<close> is the progress line
  \<^verbatim>\<open>[i/n] Downloading file (price QCC)\<close>; \<open>NotInLibraryNotBilled\<close> is the two-line
  warning of a file missing from the library.
\<close>

datatype message =
    Downloading nat nat string int
  | DownloadingMapFiles
  | NotInLibraryNotBilled string
  | AlreadyExists path
  | NotBilled

datatype event =
    LogInfo message
  | LogWarn message
  | ListFilesCall string
  | DownloadFileCall string string
  | ConfirmCall
  | ZipOpenCall path

section \<open>The downloader\<close>

text \<open>
  The state holds the two fields that \<^verbatim>\<open>DataDownloader.__init__\<close> sets to \<^verbatim>\<open>None\<close>,
  the local file system, the answers the user will give to \<^verbatim>\<open>click.confirm\<close> (none
  left: the prompt is aborted) and the trace. A raised exception leaves the state as
  it was at the raise, so every operation returns its result together with the state.
\<close>

record 'm state =
  force_overwrite :: "bool option"
  map_files_cache :: "'m list option"
  fs :: filesystem
  answers :: "bool list"
  trace :: "event list"

text \<open>
  The collaborators: the two calls of \<^verbatim>\<open>api_client.data\<close>, the configured data
  directory, \<^verbatim>\<open>zipfile\<close> (the archive's entries in order, each read and decoded, or
  failing) and \<^verbatim>\<open>MapFile.parse\<close>.
\<close>

record 'm env =
  api_list_files :: "string \<Rightarrow> error + string list"
  api_download_file :: "string \<Rightarrow> string \<Rightarrow> error + bytes"
  get_data_directory :: "error + path"
  read_zip :: "bytes \<Rightarrow> error + (error + string) list"
  parse :: "string \<Rightarrow> error + 'm"

record vendor =
  price :: int

record data_file =
  file_rel :: string
  vendor :: vendor

definition init :: "'m state \<Rightarrow> 'm state" where
  "init s = s\<lparr>force_overwrite := None, map_files_cache := None\<rparr>"

definition log :: "event \<Rightarrow> 'm state \<Rightarrow> 'm state" where
  "log e s = s\<lparr>trace := trace s @ [e]\<rparr>"

definition confirm :: "'m state \<Rightarrow> (error + bool) \<times> 'm state" where
  "confirm s =
     (case answers s of
        [] \<Rightarrow> (Inl Abort, log ConfirmCall s)
      | a # rest \<Rightarrow> (Inr a, log ConfirmCall (s\<lparr>answers := rest\<rparr>)))"

definition should_overwrite :: "bool \<Rightarrow> path \<Rightarrow> 'm state \<Rightarrow> (error + bool) \<times> 'm state" where
  "should_overwrite overwrite_flag p s =
     (if overwrite_flag \<or> force_overwrite s = Some True then (Inr True, s)
      else
        let s1 = log (LogWarn (AlreadyExists p)) s in
        case (case force_overwrite s1 of
                None \<Rightarrow>
                  (case confirm s1 of
                     (Inl e, s2) \<Rightarrow> (Inl e, s2)
                   | (Inr a, s2) \<Rightarrow> (Inr a, s2\<lparr>force_overwrite := Some a\<rparr>))
              | Some b \<Rightarrow> (Inr b, s1)) of
          (Inl e, s3) \<Rightarrow> (Inl e, s3)
        | (Inr b, s3) \<Rightarrow> (Inr b, if b then s3 else log (LogWarn NotBilled) s3))"

definition download_file ::
  "'m env \<Rightarrow> string \<Rightarrow> bool \<Rightarrow> path \<Rightarrow> string \<Rightarrow> 'm state \<Rightarrow> (error + unit) \<times> 'm state" where
  "download_file env relative_file overwrite_flag data_directory organization_id s =
     (let local_path = path_join data_directory relative_file in
      case (if exists (fs s) local_path
            then (case should_overwrite overwrite_flag local_path s of
                    (Inl e, s1) \<Rightarrow> (Inl e, s1)
                  | (Inr b, s1) \<Rightarrow> (Inr (\<not> b), s1))
            else (Inr False, s)) of
        (Inl e, s1) \<Rightarrow> (Inl e, s1)
      | (Inr True, s1) \<Rightarrow> (Inr (), s1)
      | (Inr False, s1) \<Rightarrow>
          (let s2 = log (DownloadFileCall relative_file organization_id) s1 in
           case api_download_file env relative_file organization_id of
             Inl err \<Rightarrow>
               (case err of
                  RequestFailedError msg \<Rightarrow>
                    if contains msg ''File not found''
                    then (Inr (), log (LogWarn (NotInLibraryNotBilled relative_file)) s2)
                    else (Inl err, s2)
                | _ \<Rightarrow> (Inl err, s2))
           | Inr file_content \<Rightarrow>
               (case mkdir_parents (fs s2) (butlast local_path) of
                  Inl e \<Rightarrow> (Inl e, s2)
                | Inr fs1 \<Rightarrow>
                    (case write_file fs1 local_path file_content of
                       Inl e \<Rightarrow> (Inl e, s2\<lparr>fs := fs1\<rparr>)
                     | Inr fs2 \<Rightarrow> (Inr (), s2\<lparr>fs := fs2\<rparr>)))))"

text \<open>
  The loop of \<^verbatim>\<open>download_files\<close> over \<^verbatim>\<open>enumerate(data_files)\<close>: \<open>index\<close> is the
  position of the head of the remaining list, \<open>n\<close> is \<^verbatim>\<open>len(data_files)\<close>.
\<close>

fun download_loop ::
  "'m env \<Rightarrow> nat \<Rightarrow> nat \<Rightarrow> data_file list \<Rightarrow> bool \<Rightarrow> path \<Rightarrow> string \<Rightarrow> 'm state
     \<Rightarrow> (error + unit) \<times> 'm state" where
  "download_loop env index n [] overwrite_flag data_dir organization_id s = (Inr (), s)"
| "download_loop env index n (data_file # rest) overwrite_flag data_dir organization_id s =
     (let s1 = log (LogInfo (Downloading (index + 1) n (file_rel data_file)
                       (price (vendor data_file)))) s in
      case download_file env (file_rel data_file) overwrite_flag data_dir organization_id s1 of
        (Inl e, s2) \<Rightarrow> (Inl e, s2)
      | (Inr u, s2) \<Rightarrow>
          download_loop env (index + 1) n rest overwrite_flag data_dir organization_id s2)"

definition download_files ::
  "'m env \<Rightarrow> data_file list \<Rightarrow> bool \<Rightarrow> string \<Rightarrow> 'm state \<Rightarrow> (error + unit) \<times> 'm state" where
  "download_files env data_files overwrite_flag organization_id s =
     (case get_data_directory env of
        Inl e \<Rightarrow> (Inl e, s)
      | Inr data_dir \<Rightarrow>
          download_loop env 0 (length data_files) data_files overwrite_flag data_dir
            organization_id s)"

text \<open>\<^verbatim>\<open>xs[-1]\<close> raises \<^verbatim>\<open>IndexError\<close> on the empty list.\<close>

definition last_item :: "'a list \<Rightarrow> error + 'a" where
  "last_item xs = (case xs of [] \<Rightarrow> Inl IndexError | y # ys \<Rightarrow> Inr (last xs))"

text \<open>Line 67: the bundle is the last of the listed names that end in \<^verbatim>\<open>.zip\<close>.\<close>

definition select_map_files_zip :: "string list \<Rightarrow> error + string" where
  "select_map_files_zip map_files = last_item [m \<leftarrow> map_files. endswith m ''.zip'']"

text \<open>The loop over \<^verbatim>\<open>zip_file.filelist\<close>: read, decode and parse each entry in order.\<close>

fun parse_entries ::
  "(string \<Rightarrow> error + 'm) \<Rightarrow> 'm list \<Rightarrow> (error + string) list \<Rightarrow> error + 'm list" where
  "parse_entries p map_files [] = Inr map_files"
| "parse_entries p map_files (entry # rest) =
     (case entry of
        Inl e \<Rightarrow> Inl e
      | Inr text \<Rightarrow>
          (case p text of
             Inl e \<Rightarrow> Inl e
           | Inr m \<Rightarrow> parse_entries p (map_files @ [m]) rest))"

definition open_zip :: "'m env \<Rightarrow> filesystem \<Rightarrow> path \<Rightarrow> error + (error + string) list" where
  "open_zip env fsys p =
     (case lookup fsys p of
        None \<Rightarrow> Inl FileNotFoundError
      | Some Dir \<Rightarrow> Inl IsADirectoryError
      | Some (File b) \<Rightarrow> read_zip env b)"

definition download_map_files ::
  "'m env \<Rightarrow> string \<Rightarrow> 'm state \<Rightarrow> (error + 'm list) \<times> 'm state" where
  "download_map_files env organization_id s =
     (case map_files_cache s of
        Some cached \<Rightarrow> (Inr cached, s)
      | None \<Rightarrow>
          (let s1 = log (ListFilesCall ''equity/usa/map_files'') s in
           case api_list_files env ''equity/usa/map_files'' of
             Inl e \<Rightarrow> (Inl e, s1)
           | Inr map_files \<Rightarrow>
               (case select_map_files_zip map_files of
                  Inl e \<Rightarrow> (Inl e, s1)
                | Inr map_files_zip \<Rightarrow>
                    (case get_data_directory env of
                       Inl e \<Rightarrow> (Inl e, s1)
                     | Inr data_directory \<Rightarrow>
                         (let map_files_zip_path = path_join data_directory map_files_zip in
                          case (if \<not> is_file (fs s1) map_files_zip_path
                                then download_file env map_files_zip True data_directory
                                       organization_id (log (LogInfo DownloadingMapFiles) s1)
                                else (Inr (), s1)) of
                            (Inl e, s2) \<Rightarrow> (Inl e, s2)
                          | (Inr u, s2) \<Rightarrow>
                              (let s3 = log (ZipOpenCall map_files_zip_path) s2 in
                               case open_zip env (fs s3) map_files_zip_path of
                                 Inl e \<Rightarrow> (Inl e, s3)
                               | Inr entries \<Rightarrow>
                                   (case parse_entries (parse env) [] entries of
                                      Inl e \<Rightarrow> (Inl e, s3)
                                    | Inr parsed \<Rightarrow>
                                        (Inr parsed,
                                         s3\<lparr>map_files_cache := Some parsed\<rparr>))))))))"

section \<open>The equity option product\<close>

datatype DataType = Trade | Quote | OpenInterest | Chains

fun DataType_name :: "DataType \<Rightarrow> string" where
  "DataType_name Trade = ''Trade''"
| "DataType_name Quote = ''Quote''"
| "DataType_name OpenInterest = ''OpenInterest''"
| "DataType_name Chains = ''Chains''"

datatype OptionStyle = American | European

fun OptionStyle_name :: "OptionStyle \<Rightarrow> string" where
  "OptionStyle_name American = ''American''"
| "OptionStyle_name European = ''European''"

record product =
  data_type :: DataType
  market :: string
  ticker :: string
  resolution :: string
  option_style :: "OptionStyle option"
  start_date :: "string option"
  end_date :: "string option"

text \<open>
  What the product class inherits and what it reaches through the container:
  \<^verbatim>\<open>_get_tradable_dates\<close> (the date tokens, as \<^verbatim>\<open>f"{date}"\<close> prints them),
  \<^verbatim>\<open>_get_data_files_in_range\<close>, the remote listing of a prefix and the search of
  a regular expression in a name. \<open>call\<close> records which of them were used.
\<close>

record product_env =
  get_tradable_dates :: "product \<Rightarrow> string list"
  get_data_files_in_range :: "product \<Rightarrow> string \<Rightarrow> string \<Rightarrow> string list"
  remote_listing :: "string \<Rightarrow> string list"
  re_search :: "string \<Rightarrow> string \<Rightarrow> bool"

datatype call =
    TradableDatesCall
  | DataFilesInRangeCall string string
  | ListingCall string

definition backslash :: char where
  "backslash = CHR 0x5C"

definition base_directory :: "string \<Rightarrow> DataType \<Rightarrow> string" where
  "base_directory mkt dt =
     ''option/'' @ lower mkt @ ''/'' @ (if dt = Chains then ''chains'' else ''minute'')"

text \<open>The loop of \<^verbatim>\<open>_get_data_files\<close> that appends one path per tradable date.\<close>

fun chains_files :: "string \<Rightarrow> string \<Rightarrow> string list \<Rightarrow> string list \<Rightarrow> string list" where
  "chains_files base tick files [] = files"
| "chains_files base tick files (date # dates) =
     chains_files base tick (files @ [base @ ''/'' @ date @ ''/'' @ lower tick @ ''.csv'']) dates"

definition get_data_files :: "product_env \<Rightarrow> product \<Rightarrow> (error + string list) \<times> call list" where
  "get_data_files penv p =
     (let base = base_directory (market p) (data_type p) in
      if data_type p \<noteq> Chains then
        (case option_style p of
           None \<Rightarrow> (Inl AttributeError, [])
         | Some style \<Rightarrow>
             (let prefix = base @ ''/'' @ lower (ticker p) @ ''/'';
                  pattern = ''/('' @ [backslash] @ ''d+)_'' @ lower (DataType_name (data_type p))
                            @ ''_'' @ lower (OptionStyle_name style) @ [backslash] @ ''.zip''
              in (Inr (get_data_files_in_range penv p prefix pattern),
                  [DataFilesInRangeCall prefix pattern])))
      else (Inr (chains_files base (ticker p) [] (get_tradable_dates penv p)),
            [TradableDatesCall]))"

text \<open>
  Modelled from the spec: \<^verbatim>\<open>_list_files\<close> of the product base class is not among the
  sources. The spec's matcher lists the remote entries under the prefix, applies the
  pattern and discards the entries that do not match.
\<close>

definition list_files :: "product_env \<Rightarrow> string \<Rightarrow> string \<Rightarrow> string list \<times> call list" where
  "list_files penv directory_path pattern =
     (filter (re_search penv pattern) (remote_listing penv directory_path),
      [ListingCall directory_path])"

text \<open>
  \<^verbatim>\<open>validate_ticker\<close> is a closure of \<^verbatim>\<open>build\<close>: its first three arguments here are
  the variables \<^verbatim>\<open>data_type\<close>, \<^verbatim>\<open>option_style\<close> and \<^verbatim>\<open>base_directory\<close> it captures.
\<close>

definition validate_ticker ::
  "product_env \<Rightarrow> DataType \<Rightarrow> OptionStyle option \<Rightarrow> string \<Rightarrow> string
     \<Rightarrow> (error + bool) \<times> call list" where
  "validate_ticker penv dt style_opt base t =
     (if dt = Chains then (Inr True, [])
      else
        (case style_opt of
           None \<Rightarrow> (Inl AttributeError, [])
         | Some style \<Rightarrow>
             (case list_files penv (base @ ''/'' @ lower t @ ''/'')
                     (''/'' @ [backslash] @ ''d+_'' @ lower (DataType_name dt) @ ''_''
                        @ lower (OptionStyle_name style) @ [backslash] @ ''.zip'') of
                (files, calls) \<Rightarrow> (Inr (length files > 0), calls))))"

section \<open>Notions used in the statements\<close>

text \<open>
  The failure of a request that \<^verbatim>\<open>_download_file\<close> absorbs (lines 104 and 105): a
  \<^verbatim>\<open>RequestFailedError\<close> whose text contains \<^verbatim>\<open>File not found\<close>.
\<close>

definition file_not_found :: "error \<Rightarrow> bool" where
  "file_not_found err =
     (case err of RequestFailedError msg \<Rightarrow> contains msg ''File not found'' | _ \<Rightarrow> False)"

fun is_list_call :: "event \<Rightarrow> bool" where
  "is_list_call (ListFilesCall prefix) = True"
| "is_list_call e = False"

fun is_fetch_call :: "event \<Rightarrow> bool" where
  "is_fetch_call (DownloadFileCall rel org) = True"
| "is_fetch_call e = False"

text \<open>The events that a run added to the trace of the state \<open>s\<close> it started from.\<close>

definition added :: "'m state \<Rightarrow> 'm state \<Rightarrow> event list" where
  "added s s' = drop (length (trace s)) (trace s')"



section \<open>Concrete scenarios\<close>

text \<open>
  A library in which \<^verbatim>\<open>b.csv\<close> is missing and \<^verbatim>\<open>x.csv\<close> cannot be transferred, with
  two map-file bundles listed, and a data directory \<^verbatim>\<open>/data\<close>.
\<close>

definition demo_env :: "string env" where
  "demo_env =
     \<lparr>api_list_files = (\<lambda>prefix. Inr [''equity/usa/map_files/map_files_20210104.zip'',
                                       ''equity/usa/map_files/map_files_20210105.zip'',
                                       ''equity/usa/map_files/readme.txt'']),
      api_download_file = (\<lambda>rel org.
         if rel = ''b.csv'' then Inl (RequestFailedError ''POST data/read failed: File not found'')
         else if rel = ''x.csv'' then Inl (OtherError ''connection reset'')
         else Inr ''new''),
      get_data_directory = Inr [''data''],
      read_zip = (\<lambda>b. if b = ''new'' then Inr [Inr ''aapl'', Inr ''goog'']
                       else Inl (OtherError ''BadZipFile'')),
      parse = (\<lambda>body. if body = [] then Inl (OtherError ''ValueError'') else Inr body)\<rparr>"

definition file_a :: data_file where
  "file_a = \<lparr>file_rel = ''a.csv'', vendor = \<lparr>price = 5\<rparr>\<rparr>"

definition file_b :: data_file where
  "file_b = \<lparr>file_rel = ''b.csv'', vendor = \<lparr>price = 7\<rparr>\<rparr>"

definition file_c :: data_file where
  "file_c = \<lparr>file_rel = ''c.csv'', vendor = \<lparr>price = 0\<rparr>\<rparr>"

definition file_x :: data_file where
  "file_x = \<lparr>file_rel = ''x.csv'', vendor = \<lparr>price = 7\<rparr>\<rparr>"

text \<open>A downloader just constructed, on an empty disk and with nobody at the prompt.\<close>

definition fresh_state :: "string state" where
  "fresh_state =
     \<lparr>force_overwrite = None, map_files_cache = None, fs = Map.empty,
      answers = [], trace = []\<rparr>"

text \<open>The same with \<^verbatim>\<open>/data/a.csv\<close> on disk and a user who will decline.\<close>

definition shop_state :: "string state" where
  "shop_state =
     \<lparr>force_overwrite = None, map_files_cache = None,
      fs = [[''data''] \<mapsto> Dir, [''data'', ''a.csv''] \<mapsto> File ''old''],
      answers = [False], trace = []\<rparr>"

text \<open>
  Two calls of \<^verbatim>\<open>download_files\<close> on one downloader; before the second call the user
  is ready to accept.
\<close>

definition first_run :: "(error + unit) \<times> string state" where
  "first_run = download_files demo_env [file_a] False ''org'' (init shop_state)"

definition second_run :: "(error + unit) \<times> string state" where
  "second_run =
     download_files demo_env [file_a] False ''org'' ((snd first_run)\<lparr>answers := [True]\<rparr>)"

text \<open>The state after \<^verbatim>\<open>a.csv\<close> was downloaded as the first of three files.\<close>

definition after_a :: "string state" where
  "after_a =
     \<lparr>force_overwrite = None, map_files_cache = None,
      fs = [[''data''] \<mapsto> Dir, [''data'', ''a.csv''] \<mapsto> File ''new''],
      answers = [],
      trace = [LogInfo (Downloading 1 3 ''a.csv'' 5), DownloadFileCall ''a.csv'' ''org'']\<rparr>"

text \<open>The state after the user declined to overwrite \<^verbatim>\<open>a.csv\<close>, the first of two files.\<close>

definition after_skip_a :: "string state" where
  "after_skip_a =
     \<lparr>force_overwrite = Some False, map_files_cache = None,
      fs = [[''data''] \<mapsto> Dir, [''data'', ''a.csv''] \<mapsto> File ''old''],
      answers = [],
      trace = [LogInfo (Downloading 1 2 ''a.csv'' 5),
               LogWarn (AlreadyExists [''data'', ''a.csv'']), ConfirmCall, LogWarn NotBilled]\<rparr>"

text \<open>
  An uncached call of \<^verbatim>\<open>download_map_files\<close> on the empty disk, and the local path
  of the bundle it uses.
\<close>

definition maps_run :: "(error + string list) \<times> string state" where
  "maps_run = download_map_files demo_env ''org'' fresh_state"

definition maps_path :: path where
  "maps_path = [''data'', ''equity'', ''usa'', ''map_files'', ''map_files_20210105.zip'']"

text \<open>
  Variants of the library: unreachable; with a bundle whose second entry has no
  content that parses; and with no bundle listed at all.
\<close>

definition offline_env :: "string env" where
  "offline_env =
     demo_env\<lparr>api_list_files := (\<lambda>prefix. Inl (OtherError ''offline'')),
              api_download_file := (\<lambda>rel org. Inl (OtherError ''offline''))\<rparr>"


definition bare_env :: "string env" where
  "bare_env =
     demo_env\<lparr>api_list_files := (\<lambda>prefix. Inr [''equity/usa/map_files/readme.txt''])\<rparr>"

text \<open>
  A calendar of three tradable dates, a listing of the minute files of one ticker, a
  matcher that knows the trade pattern of American options, and a chains product for
  the ticker \<^verbatim>\<open>AAPL\<close>.
\<close>

definition cal_env :: product_env where
  "cal_env =
     \<lparr>get_tradable_dates = (\<lambda>p. [''20210104'', ''20210105'', ''20210106'']),
      get_data_files_in_range = (\<lambda>p prefix pattern. []),
      remote_listing = (\<lambda>prefix.
         if prefix = ''option/usa/minute/aapl/''
         then [''option/usa/minute/aapl/20210104_trade_american.zip'',
               ''option/usa/minute/aapl/20210104_quote_american.zip'']
         else []),
      re_search = (\<lambda>pattern entry.
         pattern = ''/'' @ [backslash] @ ''d+_trade_american'' @ [backslash] @ ''.zip''
         \<and> contains entry ''_trade_american.zip'')\<rparr>"

definition aapl_chains :: product where
  "aapl_chains =
     \<lparr>data_type = Chains, market = ''USA'', ticker = ''AAPL'', resolution = ''chains'',
      option_style = None, start_date = Some ''20210104'', end_date = Some ''20210106''\<rparr>"

text \<open>A batch of two files on the disk that already holds the first of them.\<close>

definition same_run :: "(error + unit) \<times> string state" where
  "same_run = download_files demo_env [file_a, file_c] False ''org'' shop_state"


section \<open>Auxiliary facts\<close>

lemma should_overwrite_frame:
  assumes "should_overwrite flag p s = (r, s')"
  shows "fs s' = fs s \<and> map_files_cache s' = map_files_cache s"
  using assms
  by (auto simp: should_overwrite_def confirm_def log_def Let_def
           split: if_splits option.splits list.splits)

lemma should_overwrite_trace:
  assumes "should_overwrite flag p s = (r, s')"
  shows "\<exists>evs. trace s' = trace s @ evs
           \<and> set evs \<subseteq> {LogWarn (AlreadyExists p), ConfirmCall, LogWarn NotBilled}"
  using assms
  by (auto simp: should_overwrite_def confirm_def log_def Let_def
           split: if_splits option.splits list.splits)

lemma should_overwrite_decided:
  assumes "force_overwrite s = Some b" and "should_overwrite flag p s = (r, s')"
  shows "force_overwrite s' = Some b \<and> answers s' = answers s
         \<and> (\<exists>evs. trace s' = trace s @ evs \<and> ConfirmCall \<notin> set evs)"
  using assms
  by (auto simp: should_overwrite_def log_def Let_def split: if_splits)

lemma download_file_decided:
  assumes "force_overwrite s = Some b"
    and "download_file env rel flag dd org s = (r, s')"
  shows "force_overwrite s' = Some b \<and> answers s' = answers s
         \<and> (\<exists>evs. trace s' = trace s @ evs \<and> ConfirmCall \<notin> set evs)"
proof -
  let ?lp = "path_join dd rel"
  obtain r0 s0 where so: "should_overwrite flag ?lp s = (r0, s0)"
    by (cases "should_overwrite flag ?lp s")
  from should_overwrite_decided[OF assms(1) so]
  obtain evs0 where s0: "force_overwrite s0 = Some b" "answers s0 = answers s"
      "trace s0 = trace s @ evs0" "ConfirmCall \<notin> set evs0"
    by blast
  show ?thesis
    using assms s0 so
    by (auto simp: download_file_def log_def Let_def
             split: if_splits sum.splits error.splits bool.splits)
qed

lemma download_loop_decided:
  assumes "force_overwrite s = Some b"
    and "download_loop env i n files flag dd org s = (r, s')"
  shows "force_overwrite s' = Some b \<and> answers s' = answers s
         \<and> (\<exists>evs. trace s' = trace s @ evs \<and> ConfirmCall \<notin> set evs)"
  using assms
proof (induction files arbitrary: i s)
  case Nil
  then show ?case by simp
next
  case (Cons f files)
  let ?s1 = "log (LogInfo (Downloading (i + 1) n (file_rel f) (price (vendor f)))) s"
  obtain r2 s2 where df: "download_file env (file_rel f) flag dd org ?s1 = (r2, s2)"
    by (cases "download_file env (file_rel f) flag dd org ?s1")
  have f1: "force_overwrite ?s1 = Some b" using Cons.prems(1) by (simp add: log_def)
  from download_file_decided[OF f1 df]
  obtain evs2 where s2: "force_overwrite s2 = Some b" "answers s2 = answers ?s1"
      "trace s2 = trace ?s1 @ evs2" "ConfirmCall \<notin> set evs2"
    by blast
  show ?case
  proof (cases r2)
    case (Inl e)
    with Cons.prems(2) df have "s' = s2" by (simp add: Let_def)
    with s2 show ?thesis by (simp add: log_def)
  next
    case (Inr u)
    with Cons.prems(2) df
    have "download_loop env (i + 1) n files flag dd org s2 = (r, s')" by (simp add: Let_def)
    from Cons.IH[OF s2(1) this] s2 show ?thesis by (auto simp: log_def)
  qed
qed

lemma first_run_value:
  "first_run =
     (Inr (), \<lparr>force_overwrite = Some False, map_files_cache = None,
               fs = [[''data''] \<mapsto> Dir, [''data'', ''a.csv''] \<mapsto> File ''old''], answers = [],
               trace = [LogInfo (Downloading 1 1 ''a.csv'' 5),
                        LogWarn (AlreadyExists [''data'', ''a.csv'']),
                        ConfirmCall, LogWarn NotBilled]\<rparr>)"
  by (simp add: first_run_def demo_env_def shop_state_def file_a_def init_def
        download_files_def download_file_def should_overwrite_def confirm_def log_def
        exists_def lookup_def path_join_def parts_def mkdir_parents_def write_file_def Let_def)

lemma download_loop_append:
  "download_loop env i n (pre @ post) flag dd org s =
     (case download_loop env i n pre flag dd org s of
        (Inl e, s1) \<Rightarrow> (Inl e, s1)
      | (Inr u, s1) \<Rightarrow> download_loop env (i + length pre) n post flag dd org s1)"
proof (induction pre arbitrary: i s)
  case Nil
  then show ?case by simp
next
  case (Cons f pre)
  show ?case
    by (simp add: Let_def Cons.IH split: prod.splits sum.splits)
qed

lemma download_file_fetch_fails:
  assumes reach: "(\<not> exists (fs sp) (path_join dd rel) \<and> sf = sp)
                  \<or> (exists (fs sp) (path_join dd rel)
                      \<and> should_overwrite flag (path_join dd rel) sp = (Inr True, sf))"
    and err: "api_download_file env rel org = Inl err"
  shows "download_file env rel flag dd org sp =
           (if file_not_found err
            then (Inr (), log (LogWarn (NotInLibraryNotBilled rel)) (log (DownloadFileCall rel org) sf))
            else (Inl err, log (DownloadFileCall rel org) sf))"
  using assms
  by (auto simp: download_file_def file_not_found_def Let_def split: error.splits)

lemma download_file_denied:
  assumes "exists (fs sp) (path_join dd rel)"
    and "should_overwrite flag (path_join dd rel) sp = (Inr False, sd)"
  shows "download_file env rel flag dd org sp = (Inr (), sd)"
  using assms by (simp add: download_file_def Let_def)

lemma log_fields:
  "force_overwrite (log e s) = force_overwrite s"
  "map_files_cache (log e s) = map_files_cache s"
  "fs (log e s) = fs s"
  "answers (log e s) = answers s"
  "trace (log e s) = trace s @ [e]"
  by (simp_all add: log_def)

lemma download_file_forced:
  assumes "download_file env rel True dd org s = (r, s')"
  shows "map_files_cache s' = map_files_cache s
         \<and> (trace s' = trace s @ [DownloadFileCall rel org]
            \<or> trace s' = trace s @ [DownloadFileCall rel org, LogWarn (NotInLibraryNotBilled rel)])
         \<and> ((\<exists>content. api_download_file env rel org = Inr content) \<or> fs s' = fs s)"
  using assms
  by (auto simp: download_file_def should_overwrite_def log_def Let_def
           split: if_splits sum.splits error.splits)



text \<open>What an uncached call of \<^verbatim>\<open>download_map_files\<close> did when it returns a list.\<close>

lemma download_map_files_success:
  assumes none: "map_files_cache s = None"
    and run: "download_map_files env org s = (Inr ms, s')"
  shows "\<exists>l z dd b entries sm.
           api_list_files env ''equity/usa/map_files'' = Inr l
         \<and> select_map_files_zip l = Inr z
         \<and> get_data_directory env = Inr dd
         \<and> (if is_file (fs s) (path_join dd z) then sm = log (ListFilesCall ''equity/usa/map_files'') s
             else download_file env z True dd org
                    (log (LogInfo DownloadingMapFiles) (log (ListFilesCall ''equity/usa/map_files'') s))
                  = (Inr (), sm))
         \<and> lookup (fs sm) (path_join dd z) = Some (File b)
         \<and> read_zip env b = Inr entries
         \<and> parse_entries (parse env) [] entries = Inr ms
         \<and> s' = (log (ZipOpenCall (path_join dd z)) sm)\<lparr>map_files_cache := Some ms\<rparr>"
  using assms
  apply (simp add: download_map_files_def Let_def open_zip_def
           split: sum.splits prod.splits option.splits node.splits if_splits)
   apply (auto simp: log_def)
  done


lemma last_filter_split:
  "filter P l \<noteq> [] \<Longrightarrow>
     \<exists>pre post. l = pre @ last (filter P l) # post \<and> P (last (filter P l)) \<and> filter P post = []"
proof (induction l)
  case Nil
  then show ?case by simp
next
  case (Cons x l)
  show ?case
  proof (cases "filter P l = []")
    case True
    with Cons.prems have px: "P x" by (auto split: if_splits)
    with True have "x # l = [] @ last (filter P (x # l)) # l \<and> P (last (filter P (x # l))) \<and> filter P l = []"
      by simp
    then show ?thesis by blast
  next
    case False
    from Cons.IH[OF False] obtain pre post where
      "l = pre @ last (filter P l) # post" "P (last (filter P l))" "filter P post = []"
      by blast
    moreover have "last (filter P (x # l)) = last (filter P l)" using False by simp
    ultimately have "x # l = (x # pre) @ last (filter P (x # l)) # post
        \<and> P (last (filter P (x # l))) \<and> filter P post = []"
      by simp
    then show ?thesis by blast
  qed
qed

lemma sorted_last_filter_greatest:
  fixes l :: "('a::linorder) list"
  assumes "sorted l" and "m \<in> set l" and "P m"
  shows "m \<le> last (filter P l)"
proof -
  have s: "sorted (filter P l)" using assms(1) by (rule sorted_wrt_filter)
  have mem: "m \<in> set (filter P l)" using assms by simp
  then have ne: "filter P l \<noteq> []" by (metis empty_iff empty_set)
  then have "filter P l = butlast (filter P l) @ [last (filter P l)]" by simp
  with s have "sorted (butlast (filter P l) @ [last (filter P l)])" by simp
  then have "\<forall>x \<in> set (butlast (filter P l)). x \<le> last (filter P l)"
    by (simp add: sorted_append)
  moreover from mem ne have "m \<in> set (butlast (filter P l)) \<or> m = last (filter P l)"
    by (metis Un_iff append_butlast_last_id empty_iff empty_set set_ConsD set_append)
  ultimately show ?thesis by auto
qed

lemma select_map_files_zip_Inr:
  "select_map_files_zip l = Inr z \<longleftrightarrow>
     [m \<leftarrow> l. endswith m ''.zip''] \<noteq> [] \<and> z = last [m \<leftarrow> l. endswith m ''.zip'']"
  by (auto simp: select_map_files_zip_def last_item_def split: list.splits)

lemma maps_run_value:
  "maps_run =
     (Inr [''aapl'', ''goog''],
      \<lparr>force_overwrite = None, map_files_cache = Some [''aapl'', ''goog''],
       fs = [[''data''] \<mapsto> Dir, [''data'', ''equity''] \<mapsto> Dir,
             [''data'', ''equity'', ''usa''] \<mapsto> Dir,
             [''data'', ''equity'', ''usa'', ''map_files''] \<mapsto> Dir,
             maps_path \<mapsto> File ''new''],
       answers = [],
       trace = [ListFilesCall ''equity/usa/map_files'', LogInfo DownloadingMapFiles,
                DownloadFileCall ''equity/usa/map_files/map_files_20210105.zip'' ''org'',
                ZipOpenCall maps_path]\<rparr>)"
  by (simp add: maps_run_def maps_path_def demo_env_def fresh_state_def
        download_map_files_def select_map_files_zip_def last_item_def endswith_def
        open_zip_def is_file_def download_file_def should_overwrite_def log_def exists_def
        lookup_def path_join_def parts_def mkdir_parents_def write_file_def Let_def)

lemma chains_files_map:
  "chains_files base tick files dates =
     files @ map (\<lambda>date. base @ ''/'' @ date @ ''/'' @ lower tick @ ''.csv'') dates"
  by (induction dates arbitrary: files) simp_all

lemma should_overwrite_confirm_once:
  assumes "should_overwrite flag p s = (r, s')"
  shows "\<exists>evs. trace s' = trace s @ evs \<and> count_list evs ConfirmCall \<le> 1
           \<and> (ConfirmCall \<in> set evs \<longrightarrow> r = Inl Abort \<or> force_overwrite s' \<noteq> None)"
  using assms
  by (auto simp: should_overwrite_def confirm_def log_def Let_def
           split: if_splits option.splits list.splits)

text \<open>What \<^verbatim>\<open>_download_file\<close> does once it has decided to fetch, from the state \<open>sf\<close>.\<close>

lemma download_file_after_decision:
  assumes "download_file env rel flag dd org s = (r, s')"
    and "(\<not> exists (fs s) (path_join dd rel) \<and> sf = s)
         \<or> (exists (fs s) (path_join dd rel)
             \<and> should_overwrite flag (path_join dd rel) s = (Inr True, sf))"
  shows "force_overwrite s' = force_overwrite sf
         \<and> (\<exists>evs. trace s' = trace sf @ evs \<and> ConfirmCall \<notin> set evs)"
  using assms
  by (auto simp: download_file_def log_def Let_def split: sum.splits error.splits if_splits)

lemma download_file_confirm_once:
  assumes df: "download_file env rel flag dd org s = (r, s')"
  shows "\<exists>evs. trace s' = trace s @ evs \<and> count_list evs ConfirmCall \<le> 1
           \<and> (ConfirmCall \<in> set evs \<longrightarrow> r = Inl Abort \<or> force_overwrite s' \<noteq> None)"
proof (cases "exists (fs s) (path_join dd rel)")
  case False
  from download_file_after_decision[OF df, of s] False
  obtain evs where "trace s' = trace s @ evs" "ConfirmCall \<notin> set evs" by blast
  then show ?thesis by auto
next
  case True
  obtain r0 s0 where so: "should_overwrite flag (path_join dd rel) s = (r0, s0)"
    by (cases "should_overwrite flag (path_join dd rel) s")
  from should_overwrite_confirm_once[OF so]
  obtain evs0 where s0: "trace s0 = trace s @ evs0" "count_list evs0 ConfirmCall \<le> 1"
      "ConfirmCall \<in> set evs0 \<longrightarrow> r0 = Inl Abort \<or> force_overwrite s0 \<noteq> None"
    by blast
  show ?thesis
  proof (cases r0)
    case (Inl e)
    with df True so have "r = Inl e" "s' = s0" by (simp_all add: download_file_def Let_def)
    with s0 Inl show ?thesis by auto
  next
    case (Inr b)
    show ?thesis
    proof (cases b)
      case False
      with df True so Inr have "s' = s0" by (simp add: download_file_def Let_def)
      with s0 Inr show ?thesis by auto
    next
      case True
      with so Inr have "should_overwrite flag (path_join dd rel) s = (Inr True, s0)" by simp
      with \<open>exists (fs s) (path_join dd rel)\<close> download_file_after_decision[OF df, of s0]
      obtain evs where e: "force_overwrite s' = force_overwrite s0"
          "trace s' = trace s0 @ evs" "ConfirmCall \<notin> set evs"
        by blast
      have "trace s' = trace s @ (evs0 @ evs)" using e s0 by simp
      moreover have "count_list (evs0 @ evs) ConfirmCall \<le> 1" using e s0 by simp
      moreover have "ConfirmCall \<in> set (evs0 @ evs) \<longrightarrow> r = Inl Abort \<or> force_overwrite s' \<noteq> None"
        using e s0 Inr by auto
      ultimately show ?thesis by blast
    qed
  qed
qed

lemma download_loop_confirm_once:
  assumes "download_loop env i n files flag dd org s = (r, s')"
  shows "\<exists>evs. trace s' = trace s @ evs \<and> count_list evs ConfirmCall \<le> 1"
  using assms
proof (induction files arbitrary: i s)
  case Nil
  then show ?case by simp
next
  case (Cons f files)
  let ?s1 = "log (LogInfo (Downloading (i + 1) n (file_rel f) (price (vendor f)))) s"
  obtain r2 s2 where df: "download_file env (file_rel f) flag dd org ?s1 = (r2, s2)"
    by (cases "download_file env (file_rel f) flag dd org ?s1")
  from download_file_confirm_once[OF df]
  obtain evs2 where s2: "trace s2 = trace ?s1 @ evs2" "count_list evs2 ConfirmCall \<le> 1"
      "ConfirmCall \<in> set evs2 \<longrightarrow> r2 = Inl Abort \<or> force_overwrite s2 \<noteq> None"
    by blast
  show ?case
  proof (cases r2)
    case (Inl e)
    with Cons.prems df have "s' = s2" by (simp add: Let_def)
    with s2 show ?thesis by (simp add: log_def)
  next
    case (Inr u)
    with Cons.prems df
    have rest: "download_loop env (i + 1) n files flag dd org s2 = (r, s')"
      by (simp add: Let_def)
    show ?thesis
    proof (cases "ConfirmCall \<in> set evs2")
      case True
      with s2(3) Inr obtain b where "force_overwrite s2 = Some b" by auto
      from download_loop_decided[OF this rest]
      obtain evs where "trace s' = trace s2 @ evs" "ConfirmCall \<notin> set evs" by blast
      with s2 show ?thesis by (simp add: log_def)
    next
      case False
      from Cons.IH[OF rest]
      obtain evs where "trace s' = trace s2 @ evs" "count_list evs ConfirmCall \<le> 1" by blast
      with s2 False show ?thesis by (simp add: log_def)
    qed
  qed
qed





section \<open>The overwrite policy\<close>

text \<open>
  C3. \<^verbatim>\<open>_should_overwrite\<close> follows the state machine of the policy. With the
  per-call flag set, or the shared decision already Allow, it permits and leaves the
  state as it is: no prompt and no message. With the flag unset and the decision
  already Deny it denies without a prompt (no answer is consumed), after logging the
  already-exists warning and the no-charge warning. With the flag unset and the
  decision open it asks once; when the user answers, the answer becomes the shared
  decision and is the result for the current file, with the no-charge warning logged
  when the answer is no.
\<close>

theorem should_overwrite_state_machine:
  "(overwrite_flag \<or> force_overwrite s = Some True \<longrightarrow>
      should_overwrite overwrite_flag p s = (Inr True, s))
   \<and> (\<not> overwrite_flag \<and> force_overwrite s = Some False \<longrightarrow>
      should_overwrite overwrite_flag p s =
        (Inr False, s\<lparr>trace := trace s @ [LogWarn (AlreadyExists p), LogWarn NotBilled]\<rparr>))
   \<and> (\<not> overwrite_flag \<and> force_overwrite s = None \<and> answers s = a # rest \<longrightarrow>
      should_overwrite overwrite_flag p s =
        (Inr a, s\<lparr>force_overwrite := Some a, answers := rest,
                  trace := trace s @ [LogWarn (AlreadyExists p), ConfirmCall]
                             @ (if a then [] else [LogWarn NotBilled])\<rparr>))"
  by (simp add: should_overwrite_def confirm_def log_def Let_def)

theorem should_overwrite_state_machine_witness:
  "should_overwrite False [''data'', ''a.csv''] shop_state =
     (Inr False, shop_state\<lparr>force_overwrite := Some False, answers := [],
        trace := [LogWarn (AlreadyExists [''data'', ''a.csv'']), ConfirmCall,
                  LogWarn NotBilled]\<rparr>)
   \<and> should_overwrite True [''data'', ''a.csv''] shop_state = (Inr True, shop_state)
   \<and> should_overwrite False [''data'', ''a.csv''] (snd first_run) =
       (Inr False, (snd first_run)\<lparr>trace := trace (snd first_run)
          @ [LogWarn (AlreadyExists [''data'', ''a.csv'']), LogWarn NotBilled]\<rparr>)"
  using should_overwrite_state_machine [of False shop_state "[''data'', ''a.csv'']" False "[]"]
    should_overwrite_state_machine [of True shop_state "[''data'', ''a.csv'']" False "[]"]
    should_overwrite_state_machine [of False "snd first_run" "[''data'', ''a.csv'']" False "[]"]
  by (simp add: first_run_value) (simp add: shop_state_def)

text \<open>
  C1 (as amended). The overwrite decision belongs to the downloader object, not to one
  call of \<^verbatim>\<open>download_files\<close>. It is open when the object is constructed, and no call
  resets it. Once it is made, whether before a call of \<^verbatim>\<open>download_files\<close> started or
  while that call processed the first files \<open>pre\<close> of its batch, the call ends with
  the same decision, whatever its result; from that point on it asks the user nothing
  and consumes no answer, and a conflict met afterwards without the per-call flag, in
  this or in a later call, gets that decision. Any one call asks at most once.
\<close>

theorem overwrite_decision_outlives_run:
  "force_overwrite (init s0) = None
   \<and> (force_overwrite s = Some b \<and> download_files env files flag org s = (r, s') \<longrightarrow>
        force_overwrite s' = Some b \<and> answers s' = answers s
        \<and> ConfirmCall \<notin> set (added s s')
        \<and> fst (should_overwrite False p s') = Inr b)
   \<and> (get_data_directory env = Inr dd
        \<and> download_loop env 0 (length (pre @ rest)) pre flag dd org s = (Inr (), s1)
        \<and> force_overwrite s1 = Some b
        \<and> download_files env (pre @ rest) flag org s = (r, s') \<longrightarrow>
          force_overwrite s' = Some b \<and> answers s' = answers s1
          \<and> ConfirmCall \<notin> set (added s1 s')
          \<and> fst (should_overwrite False p s') = Inr b)
   \<and> (download_files env files flag org s = (r, s') \<longrightarrow>
        count_list (added s s') ConfirmCall \<le> 1)"
proof -
  have later: "force_overwrite s' = Some b \<and> answers s' = answers s
        \<and> ConfirmCall \<notin> set (added s s') \<and> fst (should_overwrite False p s') = Inr b"
    if dec: "force_overwrite s = Some b"
      and run: "download_files env files flag org s = (r, s')"
  proof (cases "get_data_directory env")
    case (Inl e)
    with run have "s' = s" by (simp add: download_files_def)
    with dec show ?thesis
      by (cases b) (simp_all add: added_def should_overwrite_def log_def Let_def)
  next
    case (Inr dd)
    with run have "download_loop env 0 (length files) files flag dd org s = (r, s')"
      by (simp add: download_files_def)
    from download_loop_decided[OF dec this]
    obtain evs where k: "force_overwrite s' = Some b" "answers s' = answers s"
        "trace s' = trace s @ evs" "ConfirmCall \<notin> set evs"
      by blast
    then show ?thesis
      by (cases b) (simp_all add: added_def should_overwrite_def log_def Let_def)
  qed
  have same: "force_overwrite s' = Some b \<and> answers s' = answers s1
        \<and> ConfirmCall \<notin> set (added s1 s') \<and> fst (should_overwrite False p s') = Inr b"
    if dd: "get_data_directory env = Inr dd"
      and pre: "download_loop env 0 (length (pre @ rest)) pre flag dd org s = (Inr (), s1)"
      and dec: "force_overwrite s1 = Some b"
      and run: "download_files env (pre @ rest) flag org s = (r, s')"
  proof -
    have "download_loop env (length pre) (length (pre @ rest)) rest flag dd org s1 = (r, s')"
      using dd pre run by (simp add: download_files_def download_loop_append)
    from download_loop_decided[OF dec this]
    obtain evs where k: "force_overwrite s' = Some b" "answers s' = answers s1"
        "trace s' = trace s1 @ evs" "ConfirmCall \<notin> set evs"
      by blast
    then show ?thesis
      by (cases b) (simp_all add: added_def should_overwrite_def log_def Let_def)
  qed
  have once: "count_list (added s s') ConfirmCall \<le> 1"
    if run: "download_files env files flag org s = (r, s')"
  proof (cases "get_data_directory env")
    case (Inl e)
    with run have "s' = s" by (simp add: download_files_def)
    then show ?thesis by (simp add: added_def)
  next
    case (Inr dd)
    with run have "download_loop env 0 (length files) files flag dd org s = (r, s')"
      by (simp add: download_files_def)
    from download_loop_confirm_once[OF this] show ?thesis by (auto simp: added_def)
  qed
  from later same once show ?thesis by (simp add: init_def)
qed

theorem overwrite_decision_outlives_run_witness:
  "force_overwrite (init shop_state) = None
   \<and> force_overwrite (snd first_run) = Some False
   \<and> force_overwrite (snd second_run) = Some False
   \<and> answers (snd second_run) = [True]
   \<and> ConfirmCall \<notin> set (added ((snd first_run)\<lparr>answers := [True]\<rparr>) (snd second_run))
   \<and> fst (should_overwrite False [''data'', ''c.csv''] (snd second_run)) = Inr False
   \<and> force_overwrite after_skip_a = Some False
   \<and> force_overwrite (snd same_run) = Some False
   \<and> answers (snd same_run) = []
   \<and> ConfirmCall \<notin> set (added after_skip_a (snd same_run))
   \<and> count_list (added shop_state (snd same_run)) ConfirmCall \<le> 1"
proof -
  have dd: "get_data_directory demo_env = Inr [''data'']" by (simp add: demo_env_def)
  have pre: "download_loop demo_env 0 (length ([file_a] @ [file_c])) [file_a] False [''data'']
               ''org'' shop_state = (Inr (), after_skip_a)"
    by (simp add: after_skip_a_def demo_env_def shop_state_def file_a_def
          download_file_def should_overwrite_def confirm_def log_def exists_def lookup_def
          path_join_def parts_def Let_def)
  have dec1: "force_overwrite after_skip_a = Some False" by (simp add: after_skip_a_def)
  have same: "download_files demo_env ([file_a] @ [file_c]) False ''org'' shop_state
                = (fst same_run, snd same_run)"
    by (simp add: same_run_def)
  have dec0: "force_overwrite ((snd first_run)\<lparr>answers := [True]\<rparr>) = Some False"
    by (simp add: first_run_value)
  have later: "download_files demo_env [file_a] False ''org'' ((snd first_run)\<lparr>answers := [True]\<rparr>)
                = (fst second_run, snd second_run)"
    by (simp add: second_run_def)
  have whole: "download_files demo_env [file_a, file_c] False ''org'' shop_state
                = (fst same_run, snd same_run)"
    by (simp add: same_run_def)
  from overwrite_decision_outlives_run
         [of shop_state "(snd first_run)\<lparr>answers := [True]\<rparr>" False demo_env "[file_a]" False
             "''org''" "fst second_run" "snd second_run" "[''data'', ''c.csv'']"]
       dec0 later
  have a: "force_overwrite (init shop_state) = None
      \<and> force_overwrite (snd second_run) = Some False
      \<and> answers (snd second_run) = [True]
      \<and> ConfirmCall \<notin> set (added ((snd first_run)\<lparr>answers := [True]\<rparr>) (snd second_run))
      \<and> fst (should_overwrite False [''data'', ''c.csv''] (snd second_run)) = Inr False"
    by simp
  from overwrite_decision_outlives_run
         [of shop_state shop_state False demo_env "[file_a, file_c]" False "''org''"
             "fst same_run" "snd same_run" "[''data'', ''c.csv'']" "[''data'']"
             "[file_a]" "[file_c]" after_skip_a]
       dd pre dec1 same whole
  have b: "force_overwrite (snd same_run) = Some False
      \<and> answers (snd same_run) = answers after_skip_a
      \<and> ConfirmCall \<notin> set (added after_skip_a (snd same_run))
      \<and> count_list (added shop_state (snd same_run)) ConfirmCall \<le> 1"
    by simp
  have "force_overwrite (snd first_run) = Some False" by (simp add: first_run_value)
  moreover have "answers after_skip_a = []" by (simp add: after_skip_a_def)
  ultimately show ?thesis using a b dec1 by simp
qed

text \<open>
  The claim as it was stated fails: after a first call in which the user declined, a
  second call on the same downloader starts with the decision Deny. For the conflict
  on \<^verbatim>\<open>a.csv\<close> it asks nothing, although the user would now accept, and skips the
  file; started from an open decision it would have asked and fetched.
\<close>

theorem overwrite_decision_reset_counterexample:
  "force_overwrite (snd first_run) = Some False
   \<and> second_run =
       (Inr (), \<lparr>force_overwrite = Some False, map_files_cache = None,
                 fs = [[''data''] \<mapsto> Dir, [''data'', ''a.csv''] \<mapsto> File ''old''], answers = [True],
                 trace = trace (snd first_run)
                   @ [LogInfo (Downloading 1 1 ''a.csv'' 5),
                      LogWarn (AlreadyExists [''data'', ''a.csv'']),
                      LogWarn NotBilled]\<rparr>)
   \<and> download_files demo_env [file_a] False ''org''
         ((snd first_run)\<lparr>answers := [True], force_overwrite := None\<rparr>) =
       (Inr (), \<lparr>force_overwrite = Some True, map_files_cache = None,
                 fs = [[''data''] \<mapsto> Dir, [''data'', ''a.csv''] \<mapsto> File ''new''],
                 answers = [],
                 trace = trace (snd first_run)
                   @ [LogInfo (Downloading 1 1 ''a.csv'' 5),
                      LogWarn (AlreadyExists [''data'', ''a.csv'']),
                      ConfirmCall, DownloadFileCall ''a.csv'' ''org'']\<rparr>)"
  by (simp add: second_run_def first_run_value)
     (simp add: demo_env_def file_a_def
        download_files_def download_file_def should_overwrite_def confirm_def log_def
        exists_def lookup_def path_join_def parts_def mkdir_parents_def write_file_def Let_def)

section \<open>The batch download\<close>

text \<open>
  C2. Let a batch reach the file \<open>f\<close> after the files \<open>pre\<close> were processed, and let
  the request for \<open>f\<close> be issued (there is no local file, or the policy permits the
  overwrite) and fail with \<open>err\<close>. Nothing was written for \<open>f\<close>. When \<open>err\<close> is
  the file-not-found failure, the not-billed warning is logged and the batch goes on
  with the files after \<open>f\<close>; otherwise the call ends at once with \<open>err\<close>, the failed
  request being the last thing it did, so that no later file is processed.
\<close>

theorem fetch_failure_handling:
  assumes dd: "get_data_directory env = Inr dd"
    and n: "n = length (pre @ f # rest)"
    and pre: "download_loop env 0 n pre flag dd org s = (Inr (), s1)"
    and sp: "sp = log (LogInfo (Downloading (length pre + 1) n (file_rel f) (price (vendor f)))) s1"
    and reach: "(\<not> exists (fs sp) (path_join dd (file_rel f)) \<and> sf = sp)
                \<or> (exists (fs sp) (path_join dd (file_rel f))
                    \<and> should_overwrite flag (path_join dd (file_rel f)) sp = (Inr True, sf))"
    and err: "api_download_file env (file_rel f) org = Inl err"
  shows "fs sf = fs s1
         \<and> download_files env (pre @ f # rest) flag org s =
             (if file_not_found err
              then download_loop env (length pre + 1) n rest flag dd org
                     (log (LogWarn (NotInLibraryNotBilled (file_rel f)))
                        (log (DownloadFileCall (file_rel f) org) sf))
              else (Inl err, log (DownloadFileCall (file_rel f) org) sf))"
proof -
  have frame: "fs sf = fs s1"
    using reach sp should_overwrite_frame[of flag "path_join dd (file_rel f)" sp "Inr True" sf]
    by (auto simp: log_def)
  have "download_files env (pre @ f # rest) flag org s =
          download_loop env (length pre) n (f # rest) flag dd org s1"
    using dd n pre by (simp add: download_files_def download_loop_append)
  also have "\<dots> =
      (case download_file env (file_rel f) flag dd org sp of
         (Inl e, s2) \<Rightarrow> (Inl e, s2)
       | (Inr u, s2) \<Rightarrow> download_loop env (length pre + 1) n rest flag dd org s2)"
    using sp by (simp add: Let_def)
  also have "\<dots> =
      (if file_not_found err
       then download_loop env (length pre + 1) n rest flag dd org
              (log (LogWarn (NotInLibraryNotBilled (file_rel f)))
                 (log (DownloadFileCall (file_rel f) org) sf))
       else (Inl err, log (DownloadFileCall (file_rel f) org) sf))"
    by (simp add: download_file_fetch_fails[OF reach err])
  finally show ?thesis using frame by simp
qed

theorem fetch_failure_handling_witness:
  "download_files demo_env [file_a, file_b, file_c] False ''org'' fresh_state =
     (Inr (),
      \<lparr>force_overwrite = None, map_files_cache = None,
       fs = [[''data''] \<mapsto> Dir, [''data'', ''a.csv''] \<mapsto> File ''new'',
             [''data'', ''c.csv''] \<mapsto> File ''new''],
       answers = [],
       trace = [LogInfo (Downloading 1 3 ''a.csv'' 5), DownloadFileCall ''a.csv'' ''org'',
                LogInfo (Downloading 2 3 ''b.csv'' 7), DownloadFileCall ''b.csv'' ''org'',
                LogWarn (NotInLibraryNotBilled ''b.csv''),
                LogInfo (Downloading 3 3 ''c.csv'' 0), DownloadFileCall ''c.csv'' ''org'']\<rparr>)
   \<and> download_files demo_env [file_a, file_x, file_c] False ''org'' fresh_state =
     (Inl (OtherError ''connection reset''),
      \<lparr>force_overwrite = None, map_files_cache = None,
       fs = [[''data''] \<mapsto> Dir, [''data'', ''a.csv''] \<mapsto> File ''new''],
       answers = [],
       trace = [LogInfo (Downloading 1 3 ''a.csv'' 5), DownloadFileCall ''a.csv'' ''org'',
                LogInfo (Downloading 2 3 ''x.csv'' 7), DownloadFileCall ''x.csv'' ''org'']\<rparr>)"
proof -
  have dd: "get_data_directory demo_env = Inr [''data'']" by (simp add: demo_env_def)
  have pre: "download_loop demo_env 0 3 [file_a] False [''data''] ''org'' fresh_state
               = (Inr (), after_a)"
    by (simp add: after_a_def demo_env_def file_a_def fresh_state_def
        download_file_def should_overwrite_def confirm_def log_def
        exists_def lookup_def path_join_def parts_def mkdir_parents_def write_file_def Let_def)
  have nb: "(3::nat) = length ([file_a] @ file_b # [file_c])" by simp
  have nx: "(3::nat) = length ([file_a] @ file_x # [file_c])" by simp
  let ?spb = "log (LogInfo (Downloading (length [file_a] + 1) 3 (file_rel file_b)
                      (price (vendor file_b)))) after_a"
  let ?spx = "log (LogInfo (Downloading (length [file_a] + 1) 3 (file_rel file_x)
                      (price (vendor file_x)))) after_a"
  have rb: "(\<not> exists (fs ?spb) (path_join [''data''] (file_rel file_b)) \<and> ?spb = ?spb)
            \<or> (exists (fs ?spb) (path_join [''data''] (file_rel file_b))
                \<and> should_overwrite False (path_join [''data''] (file_rel file_b)) ?spb
                     = (Inr True, ?spb))"
    by (simp add: after_a_def file_b_def exists_def lookup_def path_join_def parts_def log_def)
  have rx: "(\<not> exists (fs ?spx) (path_join [''data''] (file_rel file_x)) \<and> ?spx = ?spx)
            \<or> (exists (fs ?spx) (path_join [''data''] (file_rel file_x))
                \<and> should_overwrite False (path_join [''data''] (file_rel file_x)) ?spx
                     = (Inr True, ?spx))"
    by (simp add: after_a_def file_x_def exists_def lookup_def path_join_def parts_def log_def)
  have eb: "api_download_file demo_env (file_rel file_b) ''org''
              = Inl (RequestFailedError ''POST data/read failed: File not found'')"
    by (simp add: demo_env_def file_b_def)
  have ex: "api_download_file demo_env (file_rel file_x) ''org''
              = Inl (OtherError ''connection reset'')"
    by (simp add: demo_env_def file_x_def)
  from fetch_failure_handling[OF dd nb pre refl rb eb]
       fetch_failure_handling[OF dd nx pre refl rx ex]
  show ?thesis
    by (simp add: file_not_found_def)
       (simp add: after_a_def demo_env_def file_b_def file_c_def file_x_def
        download_file_def should_overwrite_def confirm_def log_def
        exists_def lookup_def path_join_def parts_def mkdir_parents_def write_file_def Let_def)
qed

text \<open>
  C4. Let a batch reach the file \<open>f\<close>, let a local file exist at the data directory
  joined with the relative path of \<open>f\<close>, and let the overwrite policy deny. Then \<open>f\<close>
  is skipped: no request is issued for it, the local file system stays as it was, and
  the batch goes on with the files after \<open>f\<close>.
\<close>

theorem denied_overwrite_skips_file:
  assumes dd: "get_data_directory env = Inr dd"
    and n: "n = length (pre @ f # rest)"
    and pre: "download_loop env 0 n pre flag dd org s = (Inr (), s1)"
    and sp: "sp = log (LogInfo (Downloading (length pre + 1) n (file_rel f) (price (vendor f)))) s1"
    and ex: "exists (fs sp) (path_join dd (file_rel f))"
    and deny: "should_overwrite flag (path_join dd (file_rel f)) sp = (Inr False, sd)"
  shows "download_files env (pre @ f # rest) flag org s =
           download_loop env (length pre + 1) n rest flag dd org sd
         \<and> fs sd = fs s1
         \<and> filter is_fetch_call (added s1 sd) = []"
proof -
  have frame: "fs sd = fs s1"
    using sp should_overwrite_frame[OF deny] by (simp add: log_def)
  from should_overwrite_trace[OF deny] obtain evs where
    evs: "trace sd = trace sp @ evs"
      "set evs \<subseteq> {LogWarn (AlreadyExists (path_join dd (file_rel f))), ConfirmCall, LogWarn NotBilled}"
    by blast
  have "\<forall>e \<in> set evs. \<not> is_fetch_call e" using evs(2) by auto
  then have "filter is_fetch_call evs = []" by (simp add: filter_empty_conv)
  then have nofetch: "filter is_fetch_call (added s1 sd) = []"
    using evs(1) sp by (simp add: added_def log_def)
  have "download_files env (pre @ f # rest) flag org s =
          download_loop env (length pre) n (f # rest) flag dd org s1"
    using dd n pre by (simp add: download_files_def download_loop_append)
  also have "\<dots> = download_loop env (length pre + 1) n rest flag dd org sd"
    using sp download_file_denied[OF ex deny] by (simp add: Let_def)
  finally show ?thesis using frame nofetch by simp
qed

theorem denied_overwrite_skips_file_witness:
  "download_files demo_env [file_a, file_c] False ''org'' shop_state =
     (Inr (),
      \<lparr>force_overwrite = Some False, map_files_cache = None,
       fs = [[''data''] \<mapsto> Dir, [''data'', ''a.csv''] \<mapsto> File ''old'',
             [''data'', ''c.csv''] \<mapsto> File ''new''],
       answers = [],
       trace = [LogInfo (Downloading 1 2 ''a.csv'' 5),
                LogWarn (AlreadyExists [''data'', ''a.csv'']), ConfirmCall, LogWarn NotBilled,
                LogInfo (Downloading 2 2 ''c.csv'' 0), DownloadFileCall ''c.csv'' ''org'']\<rparr>)
   \<and> fs after_skip_a = fs shop_state
   \<and> filter is_fetch_call (added shop_state after_skip_a) = []"
proof -
  have dd: "get_data_directory demo_env = Inr [''data'']" by (simp add: demo_env_def)
  have n: "(2::nat) = length ([] @ file_a # [file_c])" by simp
  have pre: "download_loop demo_env 0 2 [] False [''data''] ''org'' shop_state
               = (Inr (), shop_state)"
    by simp
  let ?sp = "log (LogInfo (Downloading (length ([]::data_file list) + 1) 2 (file_rel file_a)
                     (price (vendor file_a)))) shop_state"
  have ex: "exists (fs ?sp) (path_join [''data''] (file_rel file_a))"
    by (simp add: shop_state_def file_a_def exists_def lookup_def path_join_def parts_def log_def)
  have deny: "should_overwrite False (path_join [''data''] (file_rel file_a)) ?sp
                = (Inr False, after_skip_a)"
    by (simp add: after_skip_a_def shop_state_def file_a_def should_overwrite_def confirm_def
          log_def path_join_def parts_def Let_def)
  from denied_overwrite_skips_file[OF dd n pre refl ex deny]
  show ?thesis
    by simp
       (simp add: after_skip_a_def demo_env_def shop_state_def file_c_def
        download_file_def should_overwrite_def confirm_def log_def
        exists_def lookup_def path_join_def parts_def mkdir_parents_def write_file_def Let_def)
qed

section \<open>The map-file cache\<close>

text \<open>
  C5. \<^verbatim>\<open>download_map_files\<close> is memoized. When a call that finds the cache empty
  returns a list, the cache then holds that list, and a further call, with whatever
  collaborators and organization, returns the same list and leaves the state as it is:
  it lists nothing, fetches nothing and opens no archive. Over the two calls there is
  exactly one listing call and at most one fetch call.
\<close>

theorem map_files_memoized:
  assumes none: "map_files_cache s = None"
    and first: "download_map_files env org s = (Inr ms, s1)"
  shows "map_files_cache s1 = Some ms
         \<and> download_map_files env' org' s1 = (Inr ms, s1)
         \<and> length (filter is_list_call (added s (snd (download_map_files env' org' s1)))) = 1
         \<and> length (filter is_fetch_call (added s (snd (download_map_files env' org' s1)))) \<le> 1"
proof -
  from download_map_files_success[OF none first]
  obtain l z dd b entries sm where
    sm: "if is_file (fs s) (path_join dd z) then sm = log (ListFilesCall ''equity/usa/map_files'') s
         else download_file env z True dd org
                (log (LogInfo DownloadingMapFiles) (log (ListFilesCall ''equity/usa/map_files'') s))
              = (Inr (), sm)"
    and s1: "s1 = (log (ZipOpenCall (path_join dd z)) sm)\<lparr>map_files_cache := Some ms\<rparr>"
    by blast
  have cache: "map_files_cache s1 = Some ms" using s1 by (simp add: log_def)
  then have second: "download_map_files env' org' s1 = (Inr ms, s1)"
    by (simp add: download_map_files_def)
  have tr: "\<exists>evs. trace sm = trace s @ ListFilesCall ''equity/usa/map_files'' # evs
              \<and> filter is_list_call evs = [] \<and> length (filter is_fetch_call evs) \<le> 1"
  proof (cases "is_file (fs s) (path_join dd z)")
    case True
    with sm show ?thesis by (simp add: log_def)
  next
    case False
    with sm have "download_file env z True dd org
        (log (LogInfo DownloadingMapFiles) (log (ListFilesCall ''equity/usa/map_files'') s))
        = (Inr (), sm)" by simp
    from download_file_forced[OF this] show ?thesis by (auto simp: log_def)
  qed
  then obtain evs where evs: "trace sm = trace s @ ListFilesCall ''equity/usa/map_files'' # evs"
      "filter is_list_call evs = []" "length (filter is_fetch_call evs) \<le> 1"
    by blast
  have "added s s1 = ListFilesCall ''equity/usa/map_files'' # evs @ [ZipOpenCall (path_join dd z)]"
    using s1 evs(1) by (simp add: added_def log_def)
  with evs(2,3) have "length (filter is_list_call (added s s1)) = 1"
      "length (filter is_fetch_call (added s s1)) \<le> 1"
    by simp_all
  with cache second show ?thesis by simp
qed

theorem map_files_memoized_witness:
  "map_files_cache (snd maps_run) = Some [''aapl'', ''goog'']
   \<and> download_map_files offline_env ''other'' (snd maps_run)
       = (Inr [''aapl'', ''goog''], snd maps_run)
   \<and> length (filter is_list_call
        (added fresh_state (snd (download_map_files offline_env ''other'' (snd maps_run))))) = 1
   \<and> length (filter is_fetch_call
        (added fresh_state (snd (download_map_files offline_env ''other'' (snd maps_run))))) \<le> 1"
proof -
  have none: "map_files_cache fresh_state = None" by (simp add: fresh_state_def)
  have first: "download_map_files demo_env ''org'' fresh_state
                 = (Inr [''aapl'', ''goog''], snd maps_run)"
    using maps_run_value by (simp add: maps_run_def)
  from map_files_memoized[OF none first, of offline_env "''other''"]
  show ?thesis .
qed

text \<open>
  C6 (as amended). With the cache empty, \<^verbatim>\<open>download_map_files\<close> uses the entry that
  comes last in the order of the listing among those whose name ends in \<^verbatim>\<open>.zip\<close>:
  the names are not sorted or compared. The entry chosen is the lexicographically
  greatest of them whenever the listing is in ascending order. A call that returns a
  list has opened the archive at the data directory joined with that entry.
\<close>

theorem selects_last_listed_zip:
  "(select_map_files_zip l = Inr z \<longleftrightarrow>
      (\<exists>pre post. l = pre @ z # post \<and> endswith z ''.zip''
         \<and> [m \<leftarrow> post. endswith m ''.zip''] = []))
   \<and> (sorted l \<and> select_map_files_zip l = Inr z \<longrightarrow>
        (\<forall>m \<in> set l. endswith m ''.zip'' \<longrightarrow> m \<le> z))
   \<and> (map_files_cache s = None \<and> download_map_files env org s = (Inr ms, s') \<longrightarrow>
        (\<exists>listing chosen dd.
            api_list_files env ''equity/usa/map_files'' = Inr listing
          \<and> select_map_files_zip listing = Inr chosen
          \<and> get_data_directory env = Inr dd
          \<and> last (trace s') = ZipOpenCall (path_join dd chosen)))"
proof -
  have a: "select_map_files_zip l = Inr z \<longleftrightarrow>
      (\<exists>pre post. l = pre @ z # post \<and> endswith z ''.zip''
         \<and> [m \<leftarrow> post. endswith m ''.zip''] = [])"
  proof
    assume "select_map_files_zip l = Inr z"
    then have ne: "[m \<leftarrow> l. endswith m ''.zip''] \<noteq> []"
      and z: "z = last [m \<leftarrow> l. endswith m ''.zip'']"
      by (simp_all add: select_map_files_zip_Inr)
    from last_filter_split[OF ne] z
    show "\<exists>pre post. l = pre @ z # post \<and> endswith z ''.zip''
            \<and> [m \<leftarrow> post. endswith m ''.zip''] = []"
      by simp
  next
    assume "\<exists>pre post. l = pre @ z # post \<and> endswith z ''.zip''
              \<and> [m \<leftarrow> post. endswith m ''.zip''] = []"
    then obtain pre post where "l = pre @ z # post" "endswith z ''.zip''"
        "[m \<leftarrow> post. endswith m ''.zip''] = []"
      by blast
    then have "[m \<leftarrow> l. endswith m ''.zip''] = [m \<leftarrow> pre. endswith m ''.zip''] @ [z]"
      by simp
    then show "select_map_files_zip l = Inr z"
      by (simp add: select_map_files_zip_Inr)
  qed
  have b: "\<forall>m \<in> set l. endswith m ''.zip'' \<longrightarrow> m \<le> z"
    if "sorted l" "select_map_files_zip l = Inr z"
    using that sorted_last_filter_greatest[of l _ "\<lambda>m. endswith m ''.zip''"]
    by (simp add: select_map_files_zip_Inr)
  have c: "\<exists>listing chosen dd.
            api_list_files env ''equity/usa/map_files'' = Inr listing
          \<and> select_map_files_zip listing = Inr chosen
          \<and> get_data_directory env = Inr dd
          \<and> last (trace s') = ZipOpenCall (path_join dd chosen)"
    if none: "map_files_cache s = None" and ok: "download_map_files env org s = (Inr ms, s')"
  proof -
    from download_map_files_success[OF none ok]
    obtain listing chosen dd sm where
      "api_list_files env ''equity/usa/map_files'' = Inr listing"
      "select_map_files_zip listing = Inr chosen"
      "get_data_directory env = Inr dd"
      "s' = (log (ZipOpenCall (path_join dd chosen)) sm)\<lparr>map_files_cache := Some ms\<rparr>"
      by blast
    then show ?thesis by (simp add: log_fields)
  qed
  from a b c show ?thesis by blast
qed

theorem selects_last_listed_zip_witness:
  "select_map_files_zip [''equity/usa/map_files/map_files_20210104.zip'',
                         ''equity/usa/map_files/map_files_20210105.zip'',
                         ''equity/usa/map_files/readme.txt'']
     = Inr ''equity/usa/map_files/map_files_20210105.zip''
   \<and> ''equity/usa/map_files/map_files_20210104.zip''
       \<le> ''equity/usa/map_files/map_files_20210105.zip''
   \<and> last (trace (snd maps_run)) = ZipOpenCall maps_path"
proof -
  let ?l = "[''equity/usa/map_files/map_files_20210104.zip'',
             ''equity/usa/map_files/map_files_20210105.zip'',
             ''equity/usa/map_files/readme.txt'']"
  let ?z = "''equity/usa/map_files/map_files_20210105.zip''"
  have sel: "select_map_files_zip ?l = Inr ?z"
    by (simp add: select_map_files_zip_def last_item_def endswith_def)
  have srt: "sorted ?l" by simp
  from selects_last_listed_zip
         [of ?l ?z fresh_state demo_env "''org''" "[''aapl'', ''goog'']" "snd maps_run"]
       sel srt
  have "\<forall>m \<in> set ?l. endswith m ''.zip'' \<longrightarrow> m \<le> ?z" by blast
  then have le: "''equity/usa/map_files/map_files_20210104.zip'' \<le> ?z"
    by (simp add: endswith_def)
  have "last (trace (snd maps_run)) = ZipOpenCall maps_path"
    by (simp add: maps_run_value)
  with sel le show ?thesis by blast
qed

text \<open>
  The claim as it was stated fails on a listing that is not in ascending order: of two
  bundles listed newest first, the older one, which is the lexicographically smaller,
  is chosen.
\<close>

theorem lexicographically_last_zip_counterexample:
  "select_map_files_zip [''equity/usa/map_files/map_files_20210105.zip'',
                         ''equity/usa/map_files/map_files_20210104.zip'']
     = Inr ''equity/usa/map_files/map_files_20210104.zip''
   \<and> ''equity/usa/map_files/map_files_20210104.zip''
       < ''equity/usa/map_files/map_files_20210105.zip''
   \<and> endswith ''equity/usa/map_files/map_files_20210105.zip'' ''.zip''"
  by (simp add: select_map_files_zip_def last_item_def endswith_def)




text \<open>
  C10. When the listing has no entry whose name ends in \<^verbatim>\<open>.zip\<close>, the empty listing
  included, an uncached call of \<^verbatim>\<open>download_map_files\<close> raises \<^verbatim>\<open>IndexError\<close> right
  after the listing call; and an uncached call that returns a list had a listing with
  at least one such entry.
\<close>

theorem no_zip_listed_raises_index_error:
  "(map_files_cache s = None \<and> api_list_files env ''equity/usa/map_files'' = Inr l
      \<and> [m \<leftarrow> l. endswith m ''.zip''] = [] \<longrightarrow>
        download_map_files env org s =
          (Inl IndexError, log (ListFilesCall ''equity/usa/map_files'') s))
   \<and> (map_files_cache s = None \<and> download_map_files env org s = (Inr ms, s') \<longrightarrow>
        (\<exists>l. api_list_files env ''equity/usa/map_files'' = Inr l
           \<and> [m \<leftarrow> l. endswith m ''.zip''] \<noteq> []))"
proof -
  have a: "download_map_files env org s =
             (Inl IndexError, log (ListFilesCall ''equity/usa/map_files'') s)"
    if "map_files_cache s = None" "api_list_files env ''equity/usa/map_files'' = Inr l"
       "[m \<leftarrow> l. endswith m ''.zip''] = []"
    using that
    by (simp add: download_map_files_def select_map_files_zip_def last_item_def Let_def)
  have b: "\<exists>l. api_list_files env ''equity/usa/map_files'' = Inr l
             \<and> [m \<leftarrow> l. endswith m ''.zip''] \<noteq> []"
    if none: "map_files_cache s = None" and ok: "download_map_files env org s = (Inr ms, s')"
  proof -
    from download_map_files_success[OF none ok]
    obtain l z where "api_list_files env ''equity/usa/map_files'' = Inr l"
        "select_map_files_zip l = Inr z"
      by blast
    then show ?thesis
      by (auto simp: select_map_files_zip_def last_item_def split: list.splits)
  qed
  from a b show ?thesis by blast
qed

theorem no_zip_listed_raises_index_error_witness:
  "download_map_files bare_env ''org'' fresh_state =
     (Inl IndexError, fresh_state\<lparr>trace := [ListFilesCall ''equity/usa/map_files'']\<rparr>)"
  using no_zip_listed_raises_index_error
          [of fresh_state bare_env "[''equity/usa/map_files/readme.txt'']" "''org''"]
  by (simp add: bare_env_def demo_env_def fresh_state_def endswith_def log_def)

section \<open>Resolution of the equity option product\<close>

text \<open>
  C8 (as amended). For a chains product \<^verbatim>\<open>_get_data_files\<close> returns one path per
  tradable date of the calendar, in the calendar's order, each made of the base
  \<^verbatim>\<open>option/\<close>, the market in lower case and \<^verbatim>\<open>/chains\<close>, then the date, then the
  ticker in lower case with \<^verbatim>\<open>.csv\<close>. The only collaborator it calls is the
  calendar: neither the files-in-range resolution nor a listing. The number of paths is
  the number of dates, so three dates give three paths.
\<close>

theorem chains_files_one_per_tradable_date:
  assumes "data_type p = Chains"
  shows "get_data_files penv p =
           (Inr (map (\<lambda>date. ''option/'' @ lower (market p) @ ''/chains/'' @ date @ ''/''
                              @ lower (ticker p) @ ''.csv'')
                   (get_tradable_dates penv p)),
            [TradableDatesCall])
         \<and> (\<forall>files. fst (get_data_files penv p) = Inr files \<longrightarrow>
               length files = length (get_tradable_dates penv p))"
  using assms
  by (simp add: get_data_files_def base_directory_def chains_files_map Let_def)

theorem chains_files_one_per_tradable_date_witness:
  "get_data_files cal_env aapl_chains =
     (Inr [''option/usa/chains/20210104/aapl.csv'',
           ''option/usa/chains/20210105/aapl.csv'',
           ''option/usa/chains/20210106/aapl.csv''],
      [TradableDatesCall])"
proof -
  have "data_type aapl_chains = Chains" by (simp add: aapl_chains_def)
  from chains_files_one_per_tradable_date[OF this, of cal_env]
  show ?thesis
    by (simp add: cal_env_def aapl_chains_def lower_def lower_char_def)
qed

text \<open>
  The claim as it was stated fails for a ticker that is not in lower case: the paths
  end in the lower-cased ticker, not in the ticker as the product holds it.
\<close>

theorem chains_ticker_verbatim_counterexample:
  "fst (get_data_files cal_env aapl_chains) =
     Inr [''option/usa/chains/20210104/aapl.csv'',
          ''option/usa/chains/20210105/aapl.csv'',
          ''option/usa/chains/20210106/aapl.csv'']
   \<and> fst (get_data_files cal_env aapl_chains) \<noteq>
     Inr [''option/usa/chains/20210104/'' @ ticker aapl_chains @ ''.csv'',
          ''option/usa/chains/20210105/'' @ ticker aapl_chains @ ''.csv'',
          ''option/usa/chains/20210106/'' @ ticker aapl_chains @ ''.csv'']"
  by (simp add: get_data_files_def base_directory_def cal_env_def aapl_chains_def
        lower_def lower_char_def Let_def)

text \<open>
  C9. For the chains data type \<^verbatim>\<open>validate_ticker\<close> returns true and calls nothing.
  For every other data type, with the option style chosen, it lists the prefix of the
  lower-cased ticker once and returns true exactly when some listed entry matches the
  pattern built from the data type and the option style.
\<close>

theorem validate_ticker_probe:
  "validate_ticker penv Chains style_opt base t = (Inr True, [])
   \<and> (dt \<noteq> Chains \<longrightarrow>
        validate_ticker penv dt (Some style) base t =
          (Inr (\<exists>entry \<in> set (remote_listing penv (base @ ''/'' @ lower t @ ''/'')).
                  re_search penv (''/'' @ [backslash] @ ''d+_'' @ lower (DataType_name dt) @ ''_''
                                    @ lower (OptionStyle_name style) @ [backslash] @ ''.zip'')
                    entry),
           [ListingCall (base @ ''/'' @ lower t @ ''/'')]))"
  by (auto simp: validate_ticker_def list_files_def filter_empty_conv)

theorem validate_ticker_probe_witness:
  "validate_ticker cal_env Chains None (base_directory ''USA'' Chains) ''AAPL'' = (Inr True, [])
   \<and> validate_ticker cal_env Trade (Some American) (base_directory ''USA'' Trade) ''AAPL''
       = (Inr True, [ListingCall ''option/usa/minute/aapl/''])
   \<and> validate_ticker cal_env OpenInterest (Some American) (base_directory ''USA'' OpenInterest)
         ''AAPL''
       = (Inr False, [ListingCall ''option/usa/minute/aapl/''])"
  using validate_ticker_probe [of cal_env None "base_directory ''USA'' Chains" "''AAPL''"
          Trade American]
        validate_ticker_probe [of cal_env None "base_directory ''USA'' Chains" "''AAPL''"
          OpenInterest American]
  by (simp add: validate_ticker_def list_files_def cal_env_def base_directory_def
        lower_def lower_char_def backslash_def)

end
